theory Spec2Isabelle
  imports Complex_Main "HOL-Library.Word" "HOL-Library.Signed_Division" "HOL-Library.Multiset"
begin

unbundle bit_operations_syntax

section \<open>Split-block bloom filters of package bloom (bloom/filter.go)\<close>

text \<open>
  Go's fixed-width integers are words: \<open>uint32\<close>, \<open>int32\<close> are \<open>32 word\<close>, \<open>uint64\<close>,
  \<open>int64\<close>, \<open>uint\<close> and \<open>int\<close> are \<open>64 word\<close> (a 64-bit platform). A signed type is
  read with \<open>sint\<close>, an unsigned one with \<open>unat\<close>. A slice is a list; its length is
  a natural number, and \<open>int32(len(f))\<close> keeps its low 32 bits.
\<close>

type_synonym byte = "8 word"
type_synonym uint32 = "32 word"
type_synonym int32 = "32 word"
type_synonym uint64 = "64 word"
type_synonym int64 = "64 word"

subsection \<open>Parts of the package that filter.go uses and that live in other files\<close>

text \<open>
  Modelled from the spec: the constant \<open>BlockSize\<close> is declared outside filter.go.
  The spec fixes the block size at 32 bytes. filter.go mixes it with \<open>int\<close>, \<open>int64\<close>
  and the result of \<open>fasthash1x64\<close>, so it is an untyped constant that takes the type
  of the other operand.
\<close>

definition BlockSize :: nat where
  "BlockSize = 32"

text \<open>
  Modelled from the spec: the type \<open>Block\<close> is declared outside filter.go. The spec
  (3, 4.1, 6): a block is 32 bytes, eight independent 32-bit words, stored as eight
  consecutive little-endian words.
\<close>

record Block =
  w0 :: uint32
  w1 :: uint32
  w2 :: uint32
  w3 :: uint32
  w4 :: uint32
  w5 :: uint32
  w6 :: uint32
  w7 :: uint32

text \<open>The zero value \<open>Block{}\<close> that \<open>Reset\<close> stores and \<open>new(Block)\<close> allocates.\<close>

definition zeroBlock :: Block where
  "zeroBlock = \<lparr>w0 = 0, w1 = 0, w2 = 0, w3 = 0, w4 = 0, w5 = 0, w6 = 0, w7 = 0\<rparr>"

text \<open>
  Modelled from the spec: the salt table is declared outside filter.go and the spec
  gives no values ("eight fixed 32-bit constants, one per word"). It is a parameter
  \<open>salt\<close> of every operation that uses it; \<open>salt i\<close> is the constant of word \<open>i\<close>.

  Modelled from the spec: the bit of a word that a hash fragment selects (4.1):
  \<open>bit = (hashLow32 * salt[i]) >> 27\<close>, the top 5 bits of the 32-bit product.
\<close>

definition wordMask :: "uint32 \<Rightarrow> uint32 \<Rightarrow> uint32" where
  "wordMask x s = push_bit (unat (drop_bit 27 (x * s))) 1"

text \<open>
  Modelled from the spec: \<open>Block.Insert\<close> is defined outside filter.go. The spec
  (4.1): for each of the 8 words, set bit \<open>bit\<close> in word \<open>i\<close> by bitwise OR.
\<close>

definition Block_Insert :: "(nat \<Rightarrow> uint32) \<Rightarrow> Block \<Rightarrow> uint32 \<Rightarrow> Block" where
  "Block_Insert salt b x =
     \<lparr>w0 = w0 b OR wordMask x (salt 0),
      w1 = w1 b OR wordMask x (salt 1),
      w2 = w2 b OR wordMask x (salt 2),
      w3 = w3 b OR wordMask x (salt 3),
      w4 = w4 b OR wordMask x (salt 4),
      w5 = w5 b OR wordMask x (salt 5),
      w6 = w6 b OR wordMask x (salt 6),
      w7 = w7 b OR wordMask x (salt 7)\<rparr>"

text \<open>
  Modelled from the spec: \<open>Block.Check\<close> is defined outside filter.go. The spec
  (4.1): the value is present only if every word already has its bit set.
\<close>

definition Block_Check :: "(nat \<Rightarrow> uint32) \<Rightarrow> Block \<Rightarrow> uint32 \<Rightarrow> bool" where
  "Block_Check salt b x \<longleftrightarrow>
     w0 b AND wordMask x (salt 0) \<noteq> 0 \<and>
     w1 b AND wordMask x (salt 1) \<noteq> 0 \<and>
     w2 b AND wordMask x (salt 2) \<noteq> 0 \<and>
     w3 b AND wordMask x (salt 3) \<noteq> 0 \<and>
     w4 b AND wordMask x (salt 4) \<noteq> 0 \<and>
     w5 b AND wordMask x (salt 5) \<noteq> 0 \<and>
     w6 b AND wordMask x (salt 6) \<noteq> 0 \<and>
     w7 b AND wordMask x (salt 7) \<noteq> 0"

text \<open>
  Modelled from the spec: the byte layout of a block is fixed outside filter.go. The
  spec (6): within a block, the bytes are 8 consecutive little-endian 32-bit words.
  \<open>wordBytes\<close> gives the four bytes of one word, the least significant first.
\<close>

definition wordBytes :: "uint32 \<Rightarrow> byte list" where
  "wordBytes w = [ucast w, ucast (drop_bit 8 w), ucast (drop_bit 16 w), ucast (drop_bit 24 w)]"

text \<open>
  Modelled from the spec: the same layout read back. \<open>bytesWord\<close> is the word whose
  little-endian bytes are given (of any number of bytes, the first the least
  significant; bits beyond 32 are dropped).
\<close>

definition bytesWord :: "byte list \<Rightarrow> uint32" where
  "bytesWord bs = foldr (\<lambda>b w. ucast b OR push_bit 8 w) bs 0"

text \<open>
  Modelled from the spec: \<open>Block.Bytes\<close> is defined outside filter.go. The spec (4.1,
  6): the 32 bytes of a block are its eight words in order.
\<close>

definition Block_Bytes :: "Block \<Rightarrow> byte list" where
  "Block_Bytes b =
     wordBytes (w0 b) @ wordBytes (w1 b) @ wordBytes (w2 b) @ wordBytes (w3 b) @
     wordBytes (w4 b) @ wordBytes (w5 b) @ wordBytes (w6 b) @ wordBytes (w7 b)"

text \<open>
  Modelled from the spec: the block that 32 bytes of memory hold, the inverse of
  \<open>Block.Bytes\<close>; filter.go reaches it by pointer conversion, in
  \<open>MakeSplitBlockFilter\<close> and when \<open>ReadAt\<close> writes into \<open>block.Bytes()\<close>.
\<close>

definition bytesBlock :: "byte list \<Rightarrow> Block" where
  "bytesBlock bs =
     \<lparr>w0 = bytesWord (take 4 bs),
      w1 = bytesWord (take 4 (drop 4 bs)),
      w2 = bytesWord (take 4 (drop 8 bs)),
      w3 = bytesWord (take 4 (drop 12 bs)),
      w4 = bytesWord (take 4 (drop 16 bs)),
      w5 = bytesWord (take 4 (drop 20 bs)),
      w6 = bytesWord (take 4 (drop 24 bs)),
      w7 = bytesWord (take 4 (drop 28 bs))\<rparr>"

text \<open>
  Modelled from the spec: \<open>fasthash1x64\<close> is defined outside filter.go. The spec
  (4.2): take the high 32 bits of the hash, multiply by the block count as unsigned
  64-bit integers, and take the high 32 bits of the 64-bit product as the block
  index. filter.go passes the count as \<open>int32\<close>; Go's conversion of an \<open>int32\<close> to
  \<open>uint64\<close> extends the sign (\<open>scast\<close>). The result is the 64-bit product shifted
  right by 32: neither the spec nor filter.go gives it a narrower type, and
  filter.go converts the offset computed from it with \<open>int64(offset)\<close>.
\<close>

definition fasthash1x64 :: "uint64 \<Rightarrow> int32 \<Rightarrow> uint64" where
  "fasthash1x64 v scale = drop_bit 32 (drop_bit 32 v * (scast scale :: uint64))"

text \<open>
  Modelled from the spec: \<open>bits.ByteCount\<close> belongs to package internal/bits. The
  spec (4.3): the byte count of a number of bits is its eighth, rounded up. Its
  result is an \<open>int\<close> in filter.go.
\<close>

definition ByteCount :: "uint64 \<Rightarrow> int64" where
  "ByteCount numBits = word_of_nat ((unat numBits + 7) div 8)"

subsection \<open>Panics and Go's integer division\<close>

datatype error = IndexOutOfRange

text \<open>Go's \<open>/\<close> on \<open>int64\<close> truncates towards zero.\<close>

definition int64_div :: "int64 \<Rightarrow> int64 \<Rightarrow> int64" where
  "int64_div a b = word_of_int (sint a sdiv sint b)"

subsection \<open>bloom/filter.go\<close>

type_synonym SplitBlockFilter = "Block list"

text \<open>
  \<open>MakeSplitBlockFilter\<close>: \<open>n := len(data) / BlockSize\<close>, then the first \<open>n\<close> blocks
  of the memory of \<open>data\<close>. Block \<open>i\<close> is read from bytes \<open>32 * i\<close> to \<open>32 * i + 31\<close>.
\<close>

definition MakeSplitBlockFilter :: "byte list \<Rightarrow> SplitBlockFilter" where
  "MakeSplitBlockFilter data =
     (let n = length data div BlockSize
      in map (\<lambda>i. bytesBlock (take BlockSize (drop (BlockSize * i) data))) [0..<n])"

text \<open>
  \<open>NumSplitBlocksOf\<close>: \<open>uint(numValues)\<close> keeps the 64 bits of \<open>numValues\<close>; the
  product wraps around in \<open>uint\<close>; the sum and the division are on \<open>int\<close>.
\<close>

definition NumSplitBlocksOf :: "int64 \<Rightarrow> uint64 \<Rightarrow> int64" where
  "NumSplitBlocksOf numValues bitsPerValue =
     (let numBytes = ByteCount (numValues * bitsPerValue);
          numBlocks = int64_div (numBytes + (word_of_nat BlockSize - 1)) (word_of_nat BlockSize)
      in numBlocks)"

text \<open>\<open>Reset\<close>: every block becomes \<open>Block{}\<close>.\<close>

definition Reset :: "SplitBlockFilter \<Rightarrow> SplitBlockFilter" where
  "Reset f = map (\<lambda>_. zeroBlock) f"

text \<open>
  \<open>Block\<close>: \<open>&f[fasthash1x64(x, int32(len(f)))]\<close>. The pointer is the position of
  the block in \<open>f\<close>; indexing outside \<open>f\<close> panics.
\<close>

definition SplitBlockFilter_Block :: "SplitBlockFilter \<Rightarrow> uint64 \<Rightarrow> error + nat" where
  "SplitBlockFilter_Block f x =
     (let i = unat (fasthash1x64 x (word_of_nat (length f)))
      in if i < length f then Inr i else Inl IndexOutOfRange)"

text \<open>
  Modelled from the spec: \<open>filterInsert\<close> is defined outside filter.go. The spec (4.2,
  4.3, 7): Insert selects the block for \<open>x\<close>, with the block count as a 32-bit count,
  and inserts the low 32 bits of \<open>x\<close> into it; one block is mutated; there is no
  failure path. The spec does not say what happens when the selected index is not
  a block of the filter (a filter of zero blocks, or of \<open>2^31\<close> blocks or more): there
  \<open>f[i := ...]\<close> leaves the filter as it is.
\<close>

definition filterInsert :: "(nat \<Rightarrow> uint32) \<Rightarrow> SplitBlockFilter \<Rightarrow> uint64 \<Rightarrow> SplitBlockFilter" where
  "filterInsert salt f x =
     (let i = unat (fasthash1x64 x (word_of_nat (length f)))
      in f[i := Block_Insert salt (f ! i) (ucast x)])"

text \<open>
  Modelled from the spec: \<open>filterCheck\<close> is defined outside filter.go. The spec (4.2,
  4.3, 7): Check selects the block for \<open>x\<close> and checks the low 32 bits of \<open>x\<close> in it;
  it never mutates state and has no failure path. Where the selected index is not a
  block of the filter the spec gives no result, and \<open>f ! i\<close> is an unspecified block:
  every theorem about the result of \<open>Check\<close> is about a filter in which the index is
  a block.
\<close>

definition filterCheck :: "(nat \<Rightarrow> uint32) \<Rightarrow> SplitBlockFilter \<Rightarrow> uint64 \<Rightarrow> bool" where
  "filterCheck salt f x =
     (let i = unat (fasthash1x64 x (word_of_nat (length f)))
      in Block_Check salt (f ! i) (ucast x))"

text \<open>
  Modelled from the spec: \<open>filterInsertBulk\<close> is defined outside filter.go. The spec
  (4.3): InsertBulk is equivalent to calling Insert for each value in order.
\<close>

fun filterInsertBulk :: "(nat \<Rightarrow> uint32) \<Rightarrow> SplitBlockFilter \<Rightarrow> uint64 list \<Rightarrow> SplitBlockFilter" where
  "filterInsertBulk salt f [] = f"
| "filterInsertBulk salt f (x # xs) = filterInsertBulk salt (filterInsert salt f x) xs"

text \<open>The methods \<open>InsertBulk\<close>, \<open>Insert\<close> and \<open>Check\<close> of filter.go call them.\<close>

definition InsertBulk :: "(nat \<Rightarrow> uint32) \<Rightarrow> SplitBlockFilter \<Rightarrow> uint64 list \<Rightarrow> SplitBlockFilter" where
  "InsertBulk salt f x = filterInsertBulk salt f x"

definition Insert :: "(nat \<Rightarrow> uint32) \<Rightarrow> SplitBlockFilter \<Rightarrow> uint64 \<Rightarrow> SplitBlockFilter" where
  "Insert salt f x = filterInsert salt f x"

definition Check :: "(nat \<Rightarrow> uint32) \<Rightarrow> SplitBlockFilter \<Rightarrow> uint64 \<Rightarrow> bool" where
  "Check salt f x = filterCheck salt f x"

text \<open>\<open>Bytes\<close>: the \<open>len(f) * BlockSize\<close> bytes of the memory of \<open>f\<close>.\<close>

definition Bytes :: "SplitBlockFilter \<Rightarrow> byte list" where
  "Bytes f = concat (map Block_Bytes f)"

text \<open>
  The pool of scratch blocks \<open>blockPool\<close> is the list of the blocks it holds, the one
  released last first. \<open>Get\<close> hands out a block released earlier, with the contents
  it had then, or nothing; then \<open>acquireBlock\<close> allocates a zero block. (The runtime
  may empty a \<open>sync.Pool\<close> at any time: that is the pool \<open>[]\<close>.)
\<close>

definition acquireBlock :: "Block list \<Rightarrow> Block \<times> Block list" where
  "acquireBlock blockPool =
     (case blockPool of [] \<Rightarrow> (zeroBlock, []) | b # rest \<Rightarrow> (b, rest))"

definition releaseBlock :: "Block \<Rightarrow> Block list \<Rightarrow> Block list" where
  "releaseBlock b blockPool = b # blockPool"

text \<open>
  An \<open>io.ReaderAt\<close>: asked for \<open>len\<close> bytes at an offset, it gives the bytes it read
  (at most \<open>len\<close> are used) and an error or none.
\<close>

type_synonym 'e ReaderAt = "nat \<Rightarrow> int64 \<Rightarrow> byte list \<times> 'e option"

text \<open>
  \<open>r.ReadAt(block.Bytes(), ...)\<close> writes into the memory of the block: the bytes read
  replace the first bytes of the block, the rest of the block keeps what it held.
\<close>

definition readInto :: "Block \<Rightarrow> byte list \<Rightarrow> Block" where
  "readInto block bs = bytesBlock (take BlockSize bs @ drop (length bs) (Block_Bytes block))"

text \<open>
  \<open>CheckSplitBlock\<close>: \<open>int32(n/BlockSize)\<close> keeps the low 32 bits of the quotient. The
  offset \<open>BlockSize * fasthash1x64(...)\<close> has the type of the result of \<open>fasthash1x64\<close>;
  \<open>int64(offset)\<close> keeps its 64 bits. The deferred \<open>releaseBlock\<close> runs last. The
  result is the pair the function returns and the pool it leaves.
\<close>

definition CheckSplitBlock ::
  "(nat \<Rightarrow> uint32) \<Rightarrow> 'e ReaderAt \<Rightarrow> int64 \<Rightarrow> uint64 \<Rightarrow> Block list \<Rightarrow> (bool \<times> 'e option) \<times> Block list" where
  "CheckSplitBlock salt r n x blockPool =
     (let (block, pool1) = acquireBlock blockPool;
          offset = (word_of_nat BlockSize :: uint64) *
                   fasthash1x64 x (ucast (int64_div n (word_of_nat BlockSize)));
          (bs, err) = r BlockSize (ucast offset :: int64);
          block' = readInto block bs
      in ((Block_Check salt block' (ucast x), err), releaseBlock block' pool1))"

text \<open>
  The block index and the byte offset that \<open>CheckSplitBlock\<close> computes on its third
  line, named so that theorems can speak about them.
\<close>

definition probeIndex :: "int64 \<Rightarrow> uint64 \<Rightarrow> uint64" where
  "probeIndex n x = fasthash1x64 x (ucast (int64_div n (word_of_nat BlockSize)))"

definition probeOffset :: "int64 \<Rightarrow> uint64 \<Rightarrow> int64" where
  "probeOffset n x = ucast ((word_of_nat BlockSize :: uint64) * probeIndex n x)"

text \<open>
  A reader over a byte slice in memory, as \<open>bytes.Reader.ReadAt\<close> of the standard
  library: a negative offset is an error, an offset at or after the end reads
  nothing and reports \<open>EOF\<close>, and a read that ends at the end of the slice before
  the buffer is full reports \<open>EOF\<close> with the bytes read.
\<close>

datatype io_error = EOF | NegativeOffset

definition bytesReaderAt :: "byte list \<Rightarrow> io_error ReaderAt" where
  "bytesReaderAt s len off =
     (if sint off < 0 then ([], Some NegativeOffset)
      else if length s \<le> nat (sint off) then ([], Some EOF)
      else (let bs = take len (drop (nat (sint off)) s)
            in (bs, if length bs < len then Some EOF else None)))"

subsection \<open>Sequences of calls\<close>

text \<open>Calling \<open>Insert\<close> for each element of a slice in turn.\<close>

fun insertEach :: "(nat \<Rightarrow> uint32) \<Rightarrow> SplitBlockFilter \<Rightarrow> uint64 list \<Rightarrow> SplitBlockFilter" where
  "insertEach salt f [] = f"
| "insertEach salt f (y # ys) = insertEach salt (Insert salt f y) ys"

text \<open>
  A call of one of the methods that leave the contents in place or add to them:
  \<open>Insert\<close>, \<open>InsertBulk\<close> or \<open>Check\<close>. \<open>call\<close> gives the filter after the call,
  \<open>calls\<close> the filter after a sequence of them.
\<close>

datatype method_call = CallInsert uint64 | CallInsertBulk "uint64 list" | CallCheck uint64

fun call :: "(nat \<Rightarrow> uint32) \<Rightarrow> SplitBlockFilter \<Rightarrow> method_call \<Rightarrow> SplitBlockFilter" where
  "call salt f (CallInsert x) = Insert salt f x"
| "call salt f (CallInsertBulk xs) = InsertBulk salt f xs"
| "call salt f (CallCheck x) = f"

fun calls :: "(nat \<Rightarrow> uint32) \<Rightarrow> SplitBlockFilter \<Rightarrow> method_call list \<Rightarrow> SplitBlockFilter" where
  "calls salt f [] = f"
| "calls salt f (c # cs) = calls salt (call salt f c) cs"

subsection \<open>A salt table for examples\<close>

text \<open>
  The eight salt constants that the Parquet format publishes for split-block bloom
  filters. Every theorem below holds for any salt table; this one serves to run
  the operations on concrete inputs.
\<close>

definition parquetSalt :: "nat \<Rightarrow> uint32" where
  "parquetSalt i =
     (if i = 0 then 0x47b6137b else if i = 1 then 0x44974d91
      else if i = 2 then 0x8824ad5b else if i = 3 then 0xa2b7289d
      else if i = 4 then 0x705495c7 else if i = 5 then 0x2df1424b
      else if i = 6 then 0x9efc4947 else 0x5c6bfb31)"

text \<open>A block with every bit set, as a read of 32 bytes \<open>0xFF\<close> leaves it.\<close>

definition onesBlock :: Block where
  "onesBlock = \<lparr>w0 = - 1, w1 = - 1, w2 = - 1, w3 = - 1, w4 = - 1, w5 = - 1, w6 = - 1, w7 = - 1\<rparr>"

section \<open>Blocks\<close>

lemma wordMask_shift_bound: "unat (drop_bit 27 (w :: uint32)) < 32"
proof -
  have "unat (drop_bit 27 w) = unat w div 2 ^ 27"
    by (simp add: drop_bit_eq_div unat_div)
  moreover have "unat w < 2 ^ 32" using unsigned_less [of w] by simp
  ultimately show ?thesis by simp
qed

lemma wordMask_nonzero: "wordMask x s \<noteq> 0"
  using wordMask_shift_bound [of "x * s"]
  by (simp add: wordMask_def)

lemma Block_Check_Insert: "Block_Check salt (Block_Insert salt b x) x"
  by (simp add: Block_Check_def Block_Insert_def bit.conj_disj_distrib2 wordMask_nonzero)

lemma and_mono_or: "w AND m \<noteq> 0 \<Longrightarrow> (w OR m') AND m \<noteq> (0 :: uint32)"
  by (simp add: bit.conj_disj_distrib2 or_eq_0_iff)

lemma Block_Check_Insert_mono:
  "Block_Check salt b y \<Longrightarrow> Block_Check salt (Block_Insert salt b x) y"
  by (simp add: Block_Check_def Block_Insert_def and_mono_or)


lemma Block_Insert_commute:
  "Block_Insert salt (Block_Insert salt b x) y = Block_Insert salt (Block_Insert salt b y) x"
  by (simp add: Block_Insert_def ac_simps)

section \<open>The byte image\<close>

lemma bytesWord_wordBytes: "bytesWord (wordBytes w) = w"
proof (rule bit_word_eqI)
  fix n assume "n < LENGTH(32)"
  then have n: "n < 32" by simp
  consider "n < 8" | "8 \<le> n" "n < 16" | "16 \<le> n" "n < 24" | "24 \<le> n"
    by linarith
  then show "bit (bytesWord (wordBytes w)) n = bit w n"
    using n by cases (auto simp add: bytesWord_def wordBytes_def bit_simps)
qed

lemma length_wordBytes: "length (wordBytes w) = 4"
  by (simp add: wordBytes_def)

lemma length_Block_Bytes: "length (Block_Bytes b) = 32"
  by (simp add: Block_Bytes_def length_wordBytes)

lemma bytesBlock_Block_Bytes: "bytesBlock (Block_Bytes b) = b"
  by (simp add: bytesBlock_def Block_Bytes_def length_wordBytes bytesWord_wordBytes)

lemma length_Bytes: "length (Bytes f) = 32 * length f"
  by (induction f) (simp_all add: Bytes_def length_Block_Bytes)

lemma Bytes_block_at:
  "i < length f \<Longrightarrow> take 32 (drop (32 * i) (Bytes f)) = Block_Bytes (f ! i)"
proof (induction f arbitrary: i)
  case Nil
  then show ?case by simp
next
  case (Cons b f)
  show ?case
  proof (cases i)
    case 0
    then show ?thesis by (simp add: Bytes_def length_Block_Bytes)
  next
    case (Suc j)
    with Cons.prems have "j < length f" by simp
    from Cons.IH [OF this] Suc show ?thesis
      by (simp add: Bytes_def length_Block_Bytes)
  qed
qed

lemma MakeSplitBlockFilter_Bytes: "MakeSplitBlockFilter (Bytes f) = f"
proof -
  have "map (\<lambda>i. bytesBlock (take 32 (drop (32 * i) (Bytes f)))) [0..<length f] =
        map (\<lambda>i. f ! i) [0..<length f]"
    by (rule map_cong) (simp_all add: Bytes_block_at bytesBlock_Block_Bytes)
  then show ?thesis
    by (simp add: MakeSplitBlockFilter_def BlockSize_def length_Bytes map_nth)
qed

text \<open>
  C6. For every filter \<open>f\<close>, \<open>MakeSplitBlockFilter (Bytes f)\<close> is \<open>f\<close> again: it has
  the same number of blocks and \<open>Check\<close> gives the same result on it for every hash.
\<close>

theorem round_trip:
  "MakeSplitBlockFilter (Bytes f) = f \<and>
   length (MakeSplitBlockFilter (Bytes f)) = length f \<and>
   Check salt (MakeSplitBlockFilter (Bytes f)) x = Check salt f x"
  by (simp add: MakeSplitBlockFilter_Bytes)

section \<open>Block selection\<close>


lemma scast_count:
  assumes "n < 2 ^ 31"
  shows "(scast (word_of_nat n :: int32) :: uint64) = word_of_nat n"
proof -
  have "signed_take_bit 31 (int n) = int n"
    using assms by (simp add: signed_take_bit_int_eq_self)
  then have "sint (word_of_nat n :: int32) = int n"
    by (simp add: signed_of_nat)
  then show ?thesis
    by (simp add: scast_eq)
qed

lemma unat_hi32: "unat (drop_bit 32 (h :: uint64)) = unat h div 2 ^ 32"
  by (simp add: drop_bit_eq_div unat_div)

lemma hi32_bound: "unat (drop_bit 32 (h :: uint64)) < 2 ^ 32"
proof -
  have "unat h < 2 ^ 64" using unsigned_less [of h] by simp
  then show ?thesis by (simp add: unat_hi32)
qed

lemma unat_fasthash1x64:
  assumes "n < 2 ^ 31"
  shows "unat (fasthash1x64 h (word_of_nat n)) = (unat (drop_bit 32 h) * n) div 2 ^ 32"
proof -
  let ?hi = "unat (drop_bit 32 h)"
  have hi: "?hi < 2 ^ 32" by (rule hi32_bound)
  have "?hi * n < 2 ^ 32 * 2 ^ 31"
    using hi assms by (meson mult_strict_mono' zero_le)
  then have prod: "?hi * n < 2 ^ 64" by simp
  have un: "unat (word_of_nat n :: uint64) = n"
    using assms by (simp add: unat_of_nat)
  have "unat (drop_bit 32 h * (word_of_nat n :: uint64)) = ?hi * n"
    using prod un by (simp add: unat_mult_lem [THEN iffD1])
  then have "unat (drop_bit 32 (drop_bit 32 h * (word_of_nat n :: uint64))) = (?hi * n) div 2 ^ 32"
    by (simp add: drop_bit_eq_div unat_div)
  then show ?thesis
    by (simp add: fasthash1x64_def scast_count [OF assms])
qed

lemma fasthash1x64_less:
  assumes "0 < n" "n < 2 ^ 31"
  shows "unat (fasthash1x64 h (word_of_nat n)) < n"
proof -
  have "unat (drop_bit 32 h) * n < 2 ^ 32 * n"
    using hi32_bound [of h] assms(1) by simp
  then have "(unat (drop_bit 32 h) * n) div 2 ^ 32 < n"
    by (simp add: less_mult_imp_div_less mult.commute)
  then show ?thesis by (simp add: unat_fasthash1x64 [OF assms(2)])
qed

lemma sint_small:
  assumes "n < 2 ^ 63"
  shows "sint (word_of_nat n :: int64) = int n"
proof -
  have "signed_take_bit 63 (int n) = int n"
    using assms by (simp add: signed_take_bit_int_eq_self)
  then show ?thesis by (simp add: signed_of_nat)
qed

lemma sdiv_nonneg: "0 \<le> a \<Longrightarrow> 0 < b \<Longrightarrow> a sdiv b = a div (b :: int)"
  by (cases "a = 0") (simp_all add: signed_divide_int_def)

lemma int64_div_bytes:
  assumes "n < 2 ^ 31"
  shows "int64_div (word_of_nat (BlockSize * n)) (word_of_nat BlockSize) = word_of_nat n"
proof -
  have "32 * n < 2 ^ 63" using assms by simp
  then have "sint (word_of_nat (32 * n) :: int64) = int (32 * n)"
    by (rule sint_small)
  moreover have "sint (32 :: int64) = 32" by simp
  moreover have "int (32 * n) sdiv 32 = int n"
    by (simp add: sdiv_nonneg)
  ultimately have "sint (word_of_nat (32 * n) :: int64) sdiv sint (32 :: int64) = int n"
    by (simp only:)
  then show ?thesis
    by (simp add: int64_div_def BlockSize_def)
qed

lemma probeIndex_bytes:
  assumes "n < 2 ^ 31"
  shows "probeIndex (word_of_nat (BlockSize * n)) h = fasthash1x64 h (word_of_nat n)"
proof -
  have "n < 2 ^ 64" using assms by (simp add: order_less_trans [where y = "2 ^ 31"])
  then have "(ucast (word_of_nat n :: int64) :: int32) = word_of_nat n"
    by (simp add: unsigned_of_nat take_bit_nat_eq_self)
  then show ?thesis
    by (simp only: probeIndex_def int64_div_bytes [OF assms])
qed

text \<open>
  C4, for block counts from 1 to \<open>2^31 - 1\<close>. For every hash \<open>h\<close> and every such
  block count \<open>n\<close>, the selected index is the high 32 bits of the product of the high 32 bits of \<open>h\<close>
  and \<open>n\<close>, it is less than \<open>n\<close>, \<open>Block\<close> on a filter of \<open>n\<close> blocks selects it, and
  \<open>CheckSplitBlock\<close> computes the same index from the byte length \<open>32 * n\<close>.
\<close>

theorem block_selection:
  assumes "0 < n" "n < 2 ^ 31" "length f = n"
  shows "unat (fasthash1x64 h (word_of_nat n)) = (unat (drop_bit 32 h) * n) div 2 ^ 32 \<and>
         unat (fasthash1x64 h (word_of_nat n)) < n \<and>
         SplitBlockFilter_Block f h = Inr (unat (fasthash1x64 h (word_of_nat n))) \<and>
         probeIndex (word_of_nat (BlockSize * n)) h = fasthash1x64 h (word_of_nat n)"
proof (intro conjI)
  show "unat (fasthash1x64 h (word_of_nat n)) = (unat (drop_bit 32 h) * n) div 2 ^ 32"
    using assms(2) by (rule unat_fasthash1x64)
  show less: "unat (fasthash1x64 h (word_of_nat n)) < n"
    using assms(1,2) by (rule fasthash1x64_less)
  show "SplitBlockFilter_Block f h = Inr (unat (fasthash1x64 h (word_of_nat n)))"
    using less assms(3) by (simp add: SplitBlockFilter_Block_def)
  show "probeIndex (word_of_nat (BlockSize * n)) h = fasthash1x64 h (word_of_nat n)"
    using assms(2) by (rule probeIndex_bytes)
qed

theorem block_selection_witness:
  "(0::nat) < 4 \<and> (4::nat) < 2 ^ 31 \<and>
   length [zeroBlock, zeroBlock, zeroBlock, zeroBlock] = 4 \<and>
   unat (fasthash1x64 0xC000000000000001 (word_of_nat 4)) = 3 \<and>
   (unat (drop_bit 32 (0xC000000000000001 :: uint64)) * 4) div 2 ^ 32 = 3 \<and>
   SplitBlockFilter_Block [zeroBlock, zeroBlock, zeroBlock, zeroBlock] 0xC000000000000001 = Inr 3 \<and>
   probeIndex (word_of_nat (BlockSize * 4)) 0xC000000000000001 = 3"
  using block_selection [of 4 "[zeroBlock, zeroBlock, zeroBlock, zeroBlock]" "0xC000000000000001"]
  by (simp add: fasthash1x64_def)

text \<open>
  With a block count of 0 the selected index is 0, which is not in the empty range
  of indices below 0, and \<open>Block\<close> panics.
\<close>

theorem block_selection_counterexample:
  "fasthash1x64 1 (word_of_nat (length ([] :: SplitBlockFilter))) = 0 \<and>
   \<not> unat (fasthash1x64 1 (word_of_nat (length ([] :: SplitBlockFilter)))) <
       length ([] :: SplitBlockFilter) \<and>
   SplitBlockFilter_Block [] 1 = Inl IndexOutOfRange"
  by (simp add: fasthash1x64_def SplitBlockFilter_Block_def)

section \<open>Insert and Check\<close>

lemma length_filterInsert: "length (filterInsert salt f x) = length f"
  by (simp add: filterInsert_def Let_def)

lemma index_in_range:
  assumes "f \<noteq> []" "length f < 2 ^ 31"
  shows "unat (fasthash1x64 x (word_of_nat (length f))) < length f"
  using assms by (intro fasthash1x64_less) simp_all

lemma filterCheck_filterInsert:
  assumes "unat (fasthash1x64 x (word_of_nat (length f))) < length f"
  shows "filterCheck salt (filterInsert salt f x) x"
  using assms
  by (simp add: filterCheck_def length_filterInsert)
     (simp add: filterInsert_def Let_def Block_Check_Insert)

lemma filterCheck_filterInsert_mono:
  assumes "filterCheck salt f y"
  shows "filterCheck salt (filterInsert salt f x) y"
proof -
  let ?i = "unat (fasthash1x64 x (word_of_nat (length f)))"
  let ?j = "unat (fasthash1x64 y (word_of_nat (length f)))"
  let ?b = "Block_Insert salt (f ! ?i) (ucast x)"
  from assms have c: "Block_Check salt (f ! ?j) (ucast y)"
    by (simp add: filterCheck_def)
  have "Block_Check salt (f[?i := ?b] ! ?j) (ucast y)"
  proof (cases "?i = ?j \<and> ?i < length f")
    case True
    then have "f[?i := ?b] ! ?j = Block_Insert salt (f ! ?j) (ucast x)" by simp
    with c show ?thesis by (simp add: Block_Check_Insert_mono)
  next
    case False
    then have "f[?i := ?b] ! ?j = f ! ?j"
      by (cases "?i = ?j") (simp_all add: list_update_beyond not_less)
    with c show ?thesis by simp
  qed
  then show ?thesis
    by (simp add: filterCheck_def length_filterInsert) (simp add: filterInsert_def Let_def)
qed

lemma length_filterInsertBulk: "length (filterInsertBulk salt f xs) = length f"
  by (induction xs arbitrary: f) (simp_all add: length_filterInsert)

lemma filterInsertBulk_mono:
  "filterCheck salt f y \<Longrightarrow> filterCheck salt (filterInsertBulk salt f xs) y"
  by (induction xs arbitrary: f) (simp_all add: filterCheck_filterInsert_mono)

lemma filterInsertBulk_contains:
  assumes "f \<noteq> []" "length f < 2 ^ 31" "h \<in> set xs"
  shows "filterCheck salt (filterInsertBulk salt f xs) h"
  using assms
proof (induction xs arbitrary: f)
  case Nil
  then show ?case by simp
next
  case (Cons x xs)
  let ?g = "filterInsert salt f x"
  have "length ?g = length f" by (rule length_filterInsert)
  with Cons.prems(1,2) have g: "?g \<noteq> []" "length ?g < 2 ^ 31"
    by auto
  show ?case
  proof (cases "h = x")
    case True
    have "filterCheck salt ?g x"
      using index_in_range [OF Cons.prems(1,2)] by (rule filterCheck_filterInsert)
    then show ?thesis
      using True by (simp add: filterInsertBulk_mono)
  next
    case False
    with Cons.prems(3) have "h \<in> set xs" by simp
    from Cons.IH [OF g this] show ?thesis by simp
  qed
qed

lemma length_call: "length (call salt f c) = length f"
  by (cases c) (simp_all add: Insert_def InsertBulk_def length_filterInsert length_filterInsertBulk)

lemma call_mono: "Check salt f y \<Longrightarrow> Check salt (call salt f c) y"
  by (cases c)
    (simp_all add: Insert_def InsertBulk_def Check_def filterCheck_filterInsert_mono
      filterInsertBulk_mono)

lemma calls_mono: "Check salt f y \<Longrightarrow> Check salt (calls salt f cs) y"
  by (induction cs arbitrary: f) (simp_all add: call_mono)

text \<open>
  C1. No false negatives. When the block selected for a hash \<open>h\<close> is a block of the
  filter, \<open>Check\<close> of \<open>h\<close> is true on the filter that \<open>Insert\<close> of \<open>h\<close> leaves, and it is
  still true after any sequence of \<open>Insert\<close>, \<open>InsertBulk\<close> and \<open>Check\<close> calls. On a
  filter with at least one block (and fewer than \<open>2^31\<close>, the range of the \<open>int32\<close>
  count) the selected block is a block of the filter for every hash.
\<close>

theorem no_false_negatives:
  "(unat (fasthash1x64 h (word_of_nat (length f))) < length f \<longrightarrow>
      Check salt (Insert salt f h) h \<and>
      (\<forall>cs. Check salt (calls salt (Insert salt f h) cs) h)) \<and>
   (f \<noteq> [] \<and> length f < 2 ^ 31 \<longrightarrow>
      unat (fasthash1x64 h (word_of_nat (length f))) < length f \<and>
      Check salt (Insert salt f h) h \<and>
      (\<forall>cs. Check salt (calls salt (Insert salt f h) cs) h))"
proof -
  have inserted: "Check salt (Insert salt f h) h \<and>
      (\<forall>cs. Check salt (calls salt (Insert salt f h) cs) h)"
    if "unat (fasthash1x64 h (word_of_nat (length f))) < length f"
  proof -
    from that have "Check salt (Insert salt f h) h"
      by (simp add: Insert_def Check_def filterCheck_filterInsert)
    then show ?thesis by (simp add: calls_mono)
  qed
  have "unat (fasthash1x64 h (word_of_nat (length f))) < length f"
    if "f \<noteq> [] \<and> length f < 2 ^ 31"
    using that by (simp add: index_in_range)
  with inserted show ?thesis by blast
qed

theorem no_false_negatives_witness:
  "[zeroBlock, zeroBlock] \<noteq> [] \<and> length [zeroBlock, zeroBlock] < 2 ^ 31 \<and>
   Insert parquetSalt [zeroBlock, zeroBlock] 0x8000000000000001 =
     [zeroBlock, \<lparr>w0 = 0x100, w1 = 0x100, w2 = 0x20000, w3 = 0x100000,
                   w4 = 0x4000, w5 = 0x20, w6 = 0x80000, w7 = 0x800\<rparr>] \<and>
   Check parquetSalt
     [zeroBlock, \<lparr>w0 = 0x100, w1 = 0x100, w2 = 0x20000, w3 = 0x100000,
                   w4 = 0x4000, w5 = 0x20, w6 = 0x80000, w7 = 0x800\<rparr>]
     0x8000000000000001 \<and>
   calls parquetSalt
     [zeroBlock, \<lparr>w0 = 0x100, w1 = 0x100, w2 = 0x20000, w3 = 0x100000,
                   w4 = 0x4000, w5 = 0x20, w6 = 0x80000, w7 = 0x800\<rparr>]
     [CallInsert 2, CallCheck 0x8000000000000001, CallInsertBulk [0x8000000000000003, 7]] =
     [\<lparr>w0 = 1073872896, w1 = 268566528, w2 = 8388612, w3 = 16640,
        w4 = 268435460, w5 = 2304, w6 = 2176, w7 = 8454144\<rparr>,
      \<lparr>w0 = 67109120, w1 = 33554688, w2 = 655360, w3 = 537919488,
        w4 = 17408, w5 = 131104, w6 = 134742016, w7 = 2052\<rparr>] \<and>
   Check parquetSalt
     [\<lparr>w0 = 1073872896, w1 = 268566528, w2 = 8388612, w3 = 16640,
        w4 = 268435460, w5 = 2304, w6 = 2176, w7 = 8454144\<rparr>,
      \<lparr>w0 = 67109120, w1 = 33554688, w2 = 655360, w3 = 537919488,
        w4 = 17408, w5 = 131104, w6 = 134742016, w7 = 2052\<rparr>]
     0x8000000000000001"
proof -
  let ?f1 = "[zeroBlock, \<lparr>w0 = 0x100, w1 = 0x100, w2 = 0x20000, w3 = 0x100000,
                           w4 = 0x4000, w5 = 0x20, w6 = 0x80000, w7 = 0x800\<rparr>]"
  let ?f2 = "[\<lparr>w0 = 1073872896, w1 = 268566528, w2 = 8388612, w3 = 16640,
                w4 = 268435460, w5 = 2304, w6 = 2176, w7 = 8454144\<rparr>,
              \<lparr>w0 = 67109120, w1 = 33554688, w2 = 655360, w3 = 537919488,
                w4 = 17408, w5 = 131104, w6 = 134742016, w7 = 2052\<rparr>]"
  have ins: "Insert parquetSalt [zeroBlock, zeroBlock] 0x8000000000000001 = ?f1"
    by code_simp
  have run: "calls parquetSalt ?f1
      [CallInsert 2, CallCheck 0x8000000000000001, CallInsertBulk [0x8000000000000003, 7]] = ?f2"
    by code_simp
  have "[zeroBlock, zeroBlock] \<noteq> [] \<and> length [zeroBlock, zeroBlock] < 2 ^ 31"
    by simp
  with no_false_negatives [of "0x8000000000000001" "[zeroBlock, zeroBlock]" parquetSalt]
  have "Check parquetSalt (Insert parquetSalt [zeroBlock, zeroBlock] 0x8000000000000001)
      0x8000000000000001"
    and "Check parquetSalt
      (calls parquetSalt (Insert parquetSalt [zeroBlock, zeroBlock] 0x8000000000000001)
        [CallInsert 2, CallCheck 0x8000000000000001, CallInsertBulk [0x8000000000000003, 7]])
      0x8000000000000001"
    by blast+
  then have "Check parquetSalt ?f1 0x8000000000000001"
    and "Check parquetSalt ?f2 0x8000000000000001"
    by (simp_all only: ins run)
  with ins run show ?thesis by simp
qed

section \<open>Reset\<close>






section \<open>Zero-length filters\<close>



section \<open>The sizing calculator\<close>

lemma NumSplitBlocksOf_nat:
  assumes "unat v * unat p + 7 < 2 ^ 64"
  shows "NumSplitBlocksOf v p = word_of_nat (((unat v * unat p + 7) div 8 + 31) div 32)"
proof -
  let ?b = "unat v * unat p"
  let ?n = "(?b + 7) div 8"
  have "?b < 2 ^ 64" using assms by simp
  then have prod: "unat (v * p) = ?b"
    by (simp add: unat_mult_lem [THEN iffD1])
  have n: "?n + 31 < 2 ^ 63" using assms by simp
  have bc: "ByteCount (v * p) = word_of_nat ?n"
    by (simp only: ByteCount_def prod)
  have "(word_of_nat ?n :: int64) + 31 = word_of_nat (?n + 31)"
    by simp
  then have "sint ((word_of_nat ?n :: int64) + 31) = int (?n + 31)"
    using sint_small [OF n] by (simp only:)
  moreover have "sint (32 :: int64) = 32" by simp
  moreover have "int (?n + 31) sdiv 32 = int ((?n + 31) div 32)"
  proof -
    have "int (?n + 31) sdiv 32 = int (?n + 31) div 32"
      by (rule sdiv_nonneg) simp_all
    also have "\<dots> = int ((?n + 31) div 32)"
      by (simp add: zdiv_int)
    finally show ?thesis .
  qed
  ultimately have "sint ((word_of_nat ?n :: int64) + 31) sdiv sint (32 :: int64) = int ((?n + 31) div 32)"
    by (simp only:)
  then have "int64_div ((word_of_nat ?n :: int64) + 31) 32 = word_of_nat ((?n + 31) div 32)"
    by (simp only: int64_div_def of_int_of_nat_eq)
  then show ?thesis
    by (simp add: NumSplitBlocksOf_def bc BlockSize_def)
qed

lemma sint_NumSplitBlocksOf:
  assumes "unat v * unat p + 7 < 2 ^ 64"
  shows "sint (NumSplitBlocksOf v p) = int (((unat v * unat p + 7) div 8 + 31) div 32)"
proof -
  have "((unat v * unat p + 7) div 8 + 31) div 32 < 2 ^ 63"
    using assms by simp
  then show ?thesis
    by (simp only: NumSplitBlocksOf_nat [OF assms] sint_small)
qed

lemma ceiling_eighth: "\<lceil>real n / 8\<rceil> = int ((n + 7) div 8)"
proof -
  have "\<lceil>real_of_int (int n) / real_of_int 8\<rceil> = - (- int n div 8)"
    by (rule ceiling_divide_eq_div)
  moreover have "- (- int n div 8) = int ((n + 7) div 8)"
    by (simp add: zdiv_int)
  ultimately show ?thesis by simp
qed

lemma ceiling_blocks: "\<lceil>real m / 32\<rceil> = int ((m + 31) div 32)"
proof -
  have "\<lceil>real_of_int (int m) / real_of_int 32\<rceil> = - (- int m div 32)"
    by (rule ceiling_divide_eq_div)
  moreover have "- (- int m div 32) = int ((m + 31) div 32)"
    by (simp add: zdiv_int)
  ultimately show ?thesis by simp
qed

lemma uint_nonneg:
  assumes "0 \<le> sint (v :: int64)"
  shows "uint v = sint v"
proof -
  have "sint v < 2 ^ 64"
    using sint_lt [of v] by simp
  then have "take_bit 64 (sint v) = sint v"
    using assms by (simp add: take_bit_int_eq_self)
  then show ?thesis
    using uint_sint [of v] by simp
qed

text \<open>
  C8, within the range of the 64-bit arithmetic. For a value count \<open>v \<ge> 0\<close> and a
  number of bits per value \<open>p\<close> whose bit count \<open>v * p + 7\<close> stays below \<open>2^64\<close> (no wrap-around of the \<open>uint\<close> arithmetic),
  \<open>NumSplitBlocksOf v p\<close> is \<open>ceil (ceil (v * p / 8) / 32)\<close>; \<open>NumSplitBlocksOf 0 p\<close>
  is 0; and within that range the result is non-negative and non-decreasing in
  \<open>v\<close> and in \<open>p\<close>.
\<close>

theorem sizing_calculator:
  assumes "0 \<le> sint v" "sint v \<le> sint v'" "p \<le> p'"
    and "sint v' * uint p' + 7 < 2 ^ 64"
  shows "sint (NumSplitBlocksOf v' p') =
           \<lceil>real_of_int \<lceil>real_of_int (sint v' * uint p') / 8\<rceil> / 32\<rceil> \<and>
         NumSplitBlocksOf 0 p' = 0 \<and>
         sint (NumSplitBlocksOf v p) \<le> sint (NumSplitBlocksOf v' p') \<and>
         0 \<le> sint (NumSplitBlocksOf v p)"
proof -
  have v': "uint v' = sint v'" and v: "uint v = sint v"
    using assms(1,2) by (simp_all add: uint_nonneg)
  have "v \<le> v'"
    using assms(2) by (simp add: word_le_def v v')
  then have le_v: "unat v \<le> unat v'"
    by (simp add: word_le_nat_alt)
  have le_p: "unat p \<le> unat p'"
    using assms(3) by (simp add: word_le_nat_alt)
  have "int (unat v' * unat p') = uint v' * uint p'"
    by simp
  then have prod: "int (unat v' * unat p') = sint v' * uint p'"
    by (simp only: v')
  have "int (unat v' * unat p' + 7) = int (unat v' * unat p') + 7"
    by simp
  then have "int (unat v' * unat p' + 7) < 2 ^ 64"
    using assms(4) by (simp only: prod)
  then have big: "unat v' * unat p' + 7 < 2 ^ 64"
    by (metis of_nat_less_numeral_power_cancel_iff)
  have "unat v * unat p \<le> unat v' * unat p'"
    using le_v le_p by (rule mult_le_mono)
  then have small: "unat v * unat p + 7 < 2 ^ 64"
    using big by linarith
  have "sint v' * uint p' = int (unat v' * unat p')"
    using prod by (rule sym)
  then have "\<lceil>real_of_int \<lceil>real_of_int (sint v' * uint p') / 8\<rceil> / 32\<rceil> =
      int (((unat v' * unat p' + 7) div 8 + 31) div 32)"
    by (simp only: of_int_of_nat_eq ceiling_eighth ceiling_blocks)
  then have first: "sint (NumSplitBlocksOf v' p') =
      \<lceil>real_of_int \<lceil>real_of_int (sint v' * uint p') / 8\<rceil> / 32\<rceil>"
    by (simp only: sint_NumSplitBlocksOf [OF big])
  have zero: "NumSplitBlocksOf 0 p' = 0"
    by (simp add: NumSplitBlocksOf_nat)
  have "((unat v * unat p + 7) div 8 + 31) div 32 \<le> ((unat v' * unat p' + 7) div 8 + 31) div 32"
    using \<open>unat v * unat p \<le> unat v' * unat p'\<close>
    by (intro div_le_mono add_le_mono) simp_all
  then have mono: "sint (NumSplitBlocksOf v p) \<le> sint (NumSplitBlocksOf v' p')"
    by (simp only: sint_NumSplitBlocksOf [OF big] sint_NumSplitBlocksOf [OF small] of_nat_le_iff)
  have "0 \<le> sint (NumSplitBlocksOf v p)"
    by (simp only: sint_NumSplitBlocksOf [OF small] of_nat_0_le_iff)
  with first zero mono show ?thesis by blast
qed

theorem sizing_calculator_witness:
  "0 \<le> sint (50000 :: int64) \<and> sint (50000 :: int64) \<le> sint (100000 :: int64) \<and>
   (8 :: uint64) \<le> 10 \<and> sint (100000 :: int64) * uint (10 :: uint64) + 7 < 2 ^ 64 \<and>
   sint (NumSplitBlocksOf 100000 10) = 3907 \<and>
   \<lceil>real_of_int \<lceil>real_of_int (100000 * 10) / 8\<rceil> / 32\<rceil> = (3907 :: int) \<and>
   NumSplitBlocksOf 0 10 = 0 \<and>
   sint (NumSplitBlocksOf 50000 8) = 1563 \<and>
   sint (NumSplitBlocksOf 50000 8) \<le> sint (NumSplitBlocksOf 100000 10)"
  using sizing_calculator [of 50000 100000 8 10]
  by (simp add: NumSplitBlocksOf_def ByteCount_def int64_div_def BlockSize_def)

text \<open>
  With \<open>v = 2^62\<close> and \<open>p = 4\<close> the product \<open>uint(numValues) * bitsPerValue\<close> wraps
  around to 0 and the result is 0, not \<open>2^56\<close>; it is below the result for \<open>p = 2\<close>.
\<close>

theorem sizing_calculator_counterexample:
  "0 \<le> sint (2 ^ 62 :: int64) \<and>
   sint (NumSplitBlocksOf (2 ^ 62) 4) = 0 \<and>
   \<lceil>real_of_int \<lceil>real_of_int (sint (2 ^ 62 :: int64) * uint (4 :: uint64)) / 8\<rceil> / 32\<rceil> =
     (2 ^ 56 :: int) \<and>
   sint (NumSplitBlocksOf (2 ^ 62) 2) = 2 ^ 55 \<and>
   \<not> sint (NumSplitBlocksOf (2 ^ 62) 2) \<le> sint (NumSplitBlocksOf (2 ^ 62) 4)"
  by (simp add: NumSplitBlocksOf_def ByteCount_def int64_div_def BlockSize_def)

section \<open>Bulk insertion\<close>

lemma filterInsert_twice:
  "filterInsert salt (filterInsert salt f x) y =
   (let i = unat (fasthash1x64 x (word_of_nat (length f)));
        j = unat (fasthash1x64 y (word_of_nat (length f)));
        g = f[i := Block_Insert salt (f ! i) (ucast x)]
    in g[j := Block_Insert salt (g ! j) (ucast y)])"
proof -
  have "filterInsert salt (filterInsert salt f x) y =
      (filterInsert salt f x)[unat (fasthash1x64 y (word_of_nat (length f))) :=
        Block_Insert salt
          (filterInsert salt f x ! unat (fasthash1x64 y (word_of_nat (length f)))) (ucast y)]"
    by (simp add: filterInsert_def [of salt "filterInsert salt f x"] length_filterInsert Let_def)
  then show ?thesis
    by (simp add: filterInsert_def [of salt f] Let_def)
qed

lemma filterInsert_commute:
  "filterInsert salt (filterInsert salt f x) y = filterInsert salt (filterInsert salt f y) x"
proof -
  let ?i = "unat (fasthash1x64 x (word_of_nat (length f)))"
  let ?j = "unat (fasthash1x64 y (word_of_nat (length f)))"
  show ?thesis
  proof (cases "?i = ?j")
    case True
    show ?thesis
    proof (cases "?i < length f")
      case inside: True
      with True show ?thesis
        by (simp add: filterInsert_twice Let_def Block_Insert_commute)
    next
      case False
      with True show ?thesis
        by (simp add: filterInsert_twice Let_def list_update_beyond not_less)
    qed
  next
    case False
    then have "?j \<noteq> ?i" by simp
    with False show ?thesis
      by (simp add: filterInsert_twice Let_def list_update_swap)
  qed
qed

lemma filterInsertBulk_fold:
  "filterInsertBulk salt f xs = fold (\<lambda>x g. filterInsert salt g x) xs f"
  by (induction xs arbitrary: f) simp_all

lemma insertEach_fold:
  "insertEach salt f ys = fold (\<lambda>x g. filterInsert salt g x) ys f"
  by (induction ys arbitrary: f) (simp_all add: Insert_def)

lemma InsertBulk_permuted:
  assumes "mset ys = mset xs"
  shows "InsertBulk salt f xs = insertEach salt f ys"
proof -
  have "(\<lambda>g. filterInsert salt g x) \<circ> (\<lambda>g. filterInsert salt g y) =
      (\<lambda>g. filterInsert salt g y) \<circ> (\<lambda>g. filterInsert salt g x)" for x y
    by (rule ext) (simp add: filterInsert_commute)
  then have "fold (\<lambda>x g. filterInsert salt g x) xs = fold (\<lambda>x g. filterInsert salt g x) ys"
    by (intro fold_multiset_equiv) (simp_all add: assms)
  then show ?thesis
    by (simp add: InsertBulk_def filterInsertBulk_fold insertEach_fold)
qed

lemma Reset_same_length: "length g = length f \<Longrightarrow> Reset g = Reset f"
  by (simp add: Reset_def map_replicate_const)

text \<open>
  C5. For every slice \<open>xs\<close> and every permutation \<open>ys\<close> of it, \<open>InsertBulk xs\<close> on a
  freshly reset filter and \<open>Insert\<close> of each element of \<open>ys\<close> in turn on a freshly
  reset filter of the same size leave the same filter, with identical byte images.
\<close>

theorem bulk_equivalence:
  assumes "mset ys = mset xs" "length g = length f"
  shows "InsertBulk salt (Reset f) xs = insertEach salt (Reset g) ys \<and>
         Bytes (InsertBulk salt (Reset f) xs) = Bytes (insertEach salt (Reset g) ys)"
proof -
  have "InsertBulk salt (Reset f) xs = insertEach salt (Reset g) ys"
    by (simp only: Reset_same_length [OF assms(2)] InsertBulk_permuted [OF assms(1)])
  then show ?thesis by simp
qed

theorem bulk_equivalence_witness:
  "mset [0x4000000000000003, 0x8000000000000001, 2] =
     mset [0x8000000000000001, 2, 0x4000000000000003 :: uint64] \<and>
   length [zeroBlock, zeroBlock] = length [onesBlock, onesBlock] \<and>
   InsertBulk parquetSalt (Reset [onesBlock, onesBlock])
     [0x8000000000000001, 2, 0x4000000000000003] =
     [\<lparr>w0 = 67239936, w1 = 33685504, w2 = 524292, w3 = 536871168,
        w4 = 268436480, w5 = 133120, w6 = 134217856, w7 = 8388612\<rparr>,
      \<lparr>w0 = 256, w1 = 256, w2 = 131072, w3 = 1048576, w4 = 16384, w5 = 32,
        w6 = 524288, w7 = 2048\<rparr>] \<and>
   insertEach parquetSalt (Reset [zeroBlock, zeroBlock])
     [0x4000000000000003, 0x8000000000000001, 2] =
     InsertBulk parquetSalt (Reset [onesBlock, onesBlock])
       [0x8000000000000001, 2, 0x4000000000000003] \<and>
   Bytes (insertEach parquetSalt (Reset [zeroBlock, zeroBlock])
     [0x4000000000000003, 0x8000000000000001, 2]) =
     Bytes (InsertBulk parquetSalt (Reset [onesBlock, onesBlock])
       [0x8000000000000001, 2, 0x4000000000000003])"
proof -
  have perm: "mset [0x4000000000000003, 0x8000000000000001, 2] =
      mset [0x8000000000000001, 2, 0x4000000000000003 :: uint64]"
    by (simp add: add_mset_commute)
  have len: "length [zeroBlock, zeroBlock] = length [onesBlock, onesBlock]"
    by simp
  have bulk: "InsertBulk parquetSalt (Reset [onesBlock, onesBlock])
      [0x8000000000000001, 2, 0x4000000000000003] =
      [\<lparr>w0 = 67239936, w1 = 33685504, w2 = 524292, w3 = 536871168,
         w4 = 268436480, w5 = 133120, w6 = 134217856, w7 = 8388612\<rparr>,
       \<lparr>w0 = 256, w1 = 256, w2 = 131072, w3 = 1048576, w4 = 16384, w5 = 32,
         w6 = 524288, w7 = 2048\<rparr>]"
    by code_simp
  from bulk_equivalence [OF perm len, of parquetSalt] perm bulk show ?thesis
    by simp
qed

section \<open>The disk probe\<close>

lemma CheckSplitBlock_result:
  "fst (CheckSplitBlock salt r n x blockPool) =
     (Block_Check salt (readInto (fst (acquireBlock blockPool)) (fst (r BlockSize (probeOffset n x))))
        (ucast x),
      snd (r BlockSize (probeOffset n x)))"
  by (simp add: CheckSplitBlock_def probeOffset_def probeIndex_def Let_def split: prod.splits)

lemma readInto_full:
  assumes "BlockSize \<le> length bs"
  shows "readInto block bs = bytesBlock (take BlockSize bs)"
  using assms by (simp add: readInto_def BlockSize_def length_Block_Bytes)

text \<open>
  C9, for reads that fill the block. When the ranged read fills all 32 bytes of the
  scratch block, \<open>CheckSplitBlock\<close> returns the same boolean and the same error whatever the pool
  held, and the boolean is the check of the bytes read. The error it returns never
  depends on the pool. (After a short read the bytes not read keep what the scratch
  block held before.)
\<close>

theorem probe_independent_of_pool:
  "(BlockSize \<le> length (fst (r BlockSize (probeOffset n x))) \<longrightarrow>
      fst (CheckSplitBlock salt r n x pool1) = fst (CheckSplitBlock salt r n x pool2) \<and>
      fst (fst (CheckSplitBlock salt r n x pool1)) =
        Block_Check salt (bytesBlock (take BlockSize (fst (r BlockSize (probeOffset n x))))) (ucast x)) \<and>
   snd (fst (CheckSplitBlock salt r n x pool1)) = snd (fst (CheckSplitBlock salt r n x pool2))"
  by (simp add: CheckSplitBlock_result readInto_full)

theorem probe_independent_of_pool_witness:
  "BlockSize \<le> length (fst (bytesReaderAt (replicate 64 0) BlockSize
      (probeOffset 64 0x8000000000000001))) \<and>
   fst (CheckSplitBlock parquetSalt (bytesReaderAt (replicate 64 0)) 64 0x8000000000000001 []) =
     (False, None) \<and>
   fst (CheckSplitBlock parquetSalt (bytesReaderAt (replicate 64 0)) 64 0x8000000000000001
     [onesBlock]) = (False, None)"
proof -
  have full: "BlockSize \<le> length (fst (bytesReaderAt (replicate 64 0) BlockSize
      (probeOffset 64 0x8000000000000001)))"
    by code_simp
  have one: "fst (CheckSplitBlock parquetSalt (bytesReaderAt (replicate 64 0)) 64
      0x8000000000000001 []) = (False, None)"
    by code_simp
  from probe_independent_of_pool [of "bytesReaderAt (replicate 64 0)" 64 "0x8000000000000001"
      parquetSalt "[]" "[onesBlock]"] full one
  show ?thesis by simp
qed

text \<open>
  A probe of a source of 32 bytes \<open>0xFF\<close> leaves a block of ones in the pool. A source
  that ends after 16 bytes gives a short read: with an empty pool the probe returns
  false, with the block of ones from the pool it returns true.
\<close>

theorem probe_short_read_counterexample:
  "snd (CheckSplitBlock parquetSalt (bytesReaderAt (replicate 32 255)) 32 1 []) = [onesBlock] \<and>
   fst (CheckSplitBlock parquetSalt (bytesReaderAt (replicate 16 255)) 32 1 []) =
     (False, Some EOF) \<and>
   fst (CheckSplitBlock parquetSalt (bytesReaderAt (replicate 16 255)) 32 1 [onesBlock]) =
     (True, Some EOF)"
  by code_simp

section \<open>Byte lengths that are not a multiple of the block size\<close>

lemma length_MakeSplitBlockFilter:
  "length (MakeSplitBlockFilter data) = length data div BlockSize"
  by (simp add: MakeSplitBlockFilter_def)

lemma MakeSplitBlockFilter_truncates:
  "MakeSplitBlockFilter data =
   MakeSplitBlockFilter (take (BlockSize * (length data div BlockSize)) data)"
proof -
  let ?n = "length data div 32"
  have le: "32 * ?n \<le> length data" by simp
  then have len: "length (take (32 * ?n) data) div 32 = ?n"
    by (simp add: min_absorb2)
  have "take 32 (drop (32 * i) (take (32 * ?n) data)) = take 32 (drop (32 * i) data)"
    if "i < ?n" for i
  proof -
    from that have "32 * i + 32 \<le> 32 * ?n" by simp
    then have "min 32 (32 * ?n - 32 * i) = 32" by simp
    then show ?thesis by (simp add: drop_take)
  qed
  then have "map (\<lambda>i. bytesBlock (take 32 (drop (32 * i) (take (32 * ?n) data)))) [0..<?n] =
      map (\<lambda>i. bytesBlock (take 32 (drop (32 * i) data))) [0..<?n]"
    by simp
  then show ?thesis
    by (simp only: MakeSplitBlockFilter_def BlockSize_def Let_def len)
qed

lemma mult_div_32_bounds:
  fixes a :: int
  assumes "0 \<le> a"
  shows "0 \<le> 32 * (a div 32) \<and> 32 * (a div 32) \<le> a"
proof -
  have "32 * (a div 32) = a - a mod 32"
    by (simp add: minus_mod_eq_mult_div)
  moreover have "0 \<le> a mod 32" "a mod 32 \<le> a"
    using assms by (simp_all add: zmod_le_nonneg_dividend)
  ultimately show ?thesis by linarith
qed

lemma sdiv_neg: "a < 0 \<Longrightarrow> a sdiv 32 = - ((- a) div (32 :: int))"
  by (simp add: signed_divide_int_def)

lemma sdiv_32_round:
  fixes a :: int
  shows "(32 * (a sdiv 32)) sdiv 32 = a sdiv 32"
proof (cases "0 \<le> a")
  case True
  then have q: "a sdiv 32 = a div 32" by (simp add: sdiv_nonneg)
  have "0 \<le> 32 * (a div 32)" using mult_div_32_bounds [OF True] by simp
  then have "(32 * (a div 32)) sdiv 32 = (32 * (a div 32)) div 32"
    by (simp add: sdiv_nonneg)
  then show ?thesis by (simp add: q)
next
  case False
  then have neg: "a < 0" by simp
  then have q: "a sdiv 32 = - ((- a) div 32)" by (rule sdiv_neg)
  show ?thesis
  proof (cases "(- a) div 32 = 0")
    case True
    then show ?thesis by (simp add: q)
  next
    case False
    moreover have "0 \<le> (- a) div 32" using neg by simp
    ultimately have "32 * (- ((- a) div 32)) < 0" by simp
    then have "(32 * (- ((- a) div 32))) sdiv 32 = - ((- (32 * (- ((- a) div 32)))) div 32)"
      by (rule sdiv_neg)
    then show ?thesis by (simp add: q)
  qed
qed

lemma sdiv_32_range:
  fixes a :: int
  assumes "- (2 ^ 63) \<le> a" "a < 2 ^ 63"
  shows "- (2 ^ 63) \<le> 32 * (a sdiv 32) \<and> 32 * (a sdiv 32) < 2 ^ 63"
proof (cases "0 \<le> a")
  case True
  then have "a sdiv 32 = a div 32" by (simp add: sdiv_nonneg)
  with mult_div_32_bounds [OF True] assms show ?thesis by linarith
next
  case False
  then have "a sdiv 32 = - ((- a) div 32)"
    by (simp add: sdiv_neg)
  moreover have "0 \<le> - a" using False by simp
  note mult_div_32_bounds [OF this]
  ultimately show ?thesis using assms by linarith
qed

lemma sint_word_of_int_small:
  assumes "- (2 ^ 63) \<le> k" "k < 2 ^ 63"
  shows "sint (word_of_int k :: int64) = k"
proof -
  have "signed_take_bit 63 k = k"
    using assms by (intro signed_take_bit_int_eq_self) simp_all
  then show ?thesis by (simp add: signed_of_int)
qed

lemma int64_div_round:
  "int64_div (word_of_nat BlockSize * int64_div n (word_of_nat BlockSize)) (word_of_nat BlockSize) =
   int64_div n (word_of_nat BlockSize)"
proof -
  define q where "q = sint n sdiv 32"
  have range: "- (2 ^ 63) \<le> 32 * q \<and> 32 * q < 2 ^ 63"
    unfolding q_def using sint_ge [of n] sint_lt [of n] by (intro sdiv_32_range) simp_all
  have prod: "(32 :: int64) * word_of_int q = word_of_int (32 * q)"
    by simp
  have "sint (word_of_int (32 * q) :: int64) = 32 * q"
    using range by (intro sint_word_of_int_small) simp_all
  then have "sint ((32 :: int64) * word_of_int q) = 32 * q"
    by (simp only: prod)
  moreover have "sint (32 :: int64) = 32" by simp
  moreover have "(32 * q) sdiv 32 = q"
    unfolding q_def by (rule sdiv_32_round)
  ultimately have "sint ((32 :: int64) * word_of_int q) sdiv sint (32 :: int64) = q"
    by (simp only:)
  then have "word_of_int (sint ((32 :: int64) * word_of_int q) sdiv sint (32 :: int64)) =
      (word_of_int q :: int64)"
    by (simp only:)
  then show ?thesis
    by (simp add: int64_div_def BlockSize_def q_def)
qed

text \<open>
  C2, as filter.go treats such a length. Neither function rejects a byte length
  that is not a multiple of 32. \<open>MakeSplitBlockFilter\<close> returns the filter of the whole blocks at the start of the
  data, \<open>len(data) / 32\<close> of them, dropping the bytes after them. \<open>CheckSplitBlock\<close>
  behaves as it does for the length rounded towards zero to a multiple of 32, and the
  error it returns is the one of the reader.
\<close>

theorem byte_length_not_validated:
  "length (MakeSplitBlockFilter data) = length data div BlockSize \<and>
   MakeSplitBlockFilter data =
     MakeSplitBlockFilter (take (BlockSize * (length data div BlockSize)) data) \<and>
   CheckSplitBlock salt r n x blockPool =
     CheckSplitBlock salt r (word_of_nat BlockSize * int64_div n (word_of_nat BlockSize)) x blockPool \<and>
   snd (fst (CheckSplitBlock salt r n x blockPool)) = snd (r BlockSize (probeOffset n x))"
proof (intro conjI)
  show "length (MakeSplitBlockFilter data) = length data div BlockSize"
    by (rule length_MakeSplitBlockFilter)
  show "MakeSplitBlockFilter data =
     MakeSplitBlockFilter (take (BlockSize * (length data div BlockSize)) data)"
    by (rule MakeSplitBlockFilter_truncates)
  show "CheckSplitBlock salt r n x blockPool =
     CheckSplitBlock salt r (word_of_nat BlockSize * int64_div n (word_of_nat BlockSize)) x blockPool"
    by (simp only: CheckSplitBlock_def int64_div_round)
  show "snd (fst (CheckSplitBlock salt r n x blockPool)) = snd (r BlockSize (probeOffset n x))"
    by (simp add: CheckSplitBlock_result)
qed

text \<open>
  With 33 bytes \<open>MakeSplitBlockFilter\<close> returns the one-block filter of the first 32
  bytes, and \<open>CheckSplitBlock\<close> with length 33 returns a result and no error.
\<close>

theorem byte_length_33_counterexample:
  "MakeSplitBlockFilter (replicate 33 255) = [onesBlock] \<and>
   MakeSplitBlockFilter (replicate 33 255) = MakeSplitBlockFilter (replicate 32 255) \<and>
   fst (CheckSplitBlock parquetSalt (bytesReaderAt (replicate 33 255)) 33 1 []) = (True, None)"
  by code_simp

section \<open>The disk probe and Check\<close>

lemma bytesReaderAt_block:
  assumes "i < length f" "sint off = int (32 * i)"
  shows "bytesReaderAt (Bytes f) BlockSize off = (Block_Bytes (f ! i), None)"
proof -
  have off: "\<not> sint off < 0" "nat (sint off) = 32 * i"
    by (simp_all only: assms(2) nat_int)
  have "\<not> length (Bytes f) \<le> 32 * i"
    using assms(1) by (simp add: length_Bytes)
  moreover have "take 32 (drop (32 * i) (Bytes f)) = Block_Bytes (f ! i)"
    using assms(1) by (rule Bytes_block_at)
  ultimately show ?thesis
    by (simp add: bytesReaderAt_def off BlockSize_def length_Block_Bytes Let_def)
qed

lemma probe_reads_block:
  assumes "i < length f" "sint (probeOffset n x) = int (32 * i)"
  shows "fst (CheckSplitBlock salt (bytesReaderAt (Bytes f)) n x blockPool) =
         (Block_Check salt (f ! i) (ucast x), None)"
proof -
  have "readInto b (Block_Bytes (f ! i)) = f ! i" for b
    by (simp add: readInto_full BlockSize_def length_Block_Bytes bytesBlock_Block_Bytes)
  then show ?thesis
    by (simp add: CheckSplitBlock_result bytesReaderAt_block [OF assms])
qed

lemma sint_unat_small:
  assumes "unat (w :: int64) < 2 ^ 63"
  shows "sint w = int (unat w)"
proof -
  have "sint (word_of_nat (unat w) :: int64) = int (unat w)"
    using assms by (rule sint_small)
  moreover have "(word_of_nat (unat w) :: int64) = w" by simp
  ultimately show ?thesis by (simp only:)
qed

lemma probeOffset_bytes:
  assumes "f \<noteq> []" "length f < 2 ^ 31"
  shows "sint (probeOffset (word_of_nat (BlockSize * length f)) x) =
         int (32 * unat (fasthash1x64 x (word_of_nat (length f))))"
proof -
  let ?i = "fasthash1x64 x (word_of_nat (length f))"
  have "unat ?i < length f"
    using assms by (rule index_in_range)
  then have small: "32 * unat ?i < 2 ^ 36" using assms(2) by simp
  then have "unat (32 :: uint64) * unat ?i < 2 ^ LENGTH(64)"
    by simp
  then have "unat ((32 :: uint64) * ?i) = unat (32 :: uint64) * unat ?i"
    by (rule unat_mult_lem [THEN iffD1])
  then have eq: "unat ((32 :: uint64) * ?i) = 32 * unat ?i"
    by simp
  then have "unat ((32 :: uint64) * ?i) < 2 ^ 63"
    using small by simp
  then have "sint ((32 :: uint64) * ?i) = int (unat ((32 :: uint64) * ?i))"
    by (rule sint_unat_small)
  then have "sint ((32 :: uint64) * ?i) = int (32 * unat ?i)"
    by (simp only: eq)
  moreover have "probeIndex (word_of_nat (BlockSize * length f)) x = ?i"
    using assms(2) by (rule probeIndex_bytes)
  then have "probeOffset (word_of_nat (BlockSize * length f)) x =
      ucast ((word_of_nat BlockSize :: uint64) * ?i)"
    by (simp only: probeOffset_def)
  moreover have "(word_of_nat BlockSize :: uint64) = 32"
    by (simp add: BlockSize_def)
  ultimately show ?thesis by (simp only: ucast_id)
qed

lemma disk_probe_agrees:
  assumes "f \<noteq> []" "length f < 2 ^ 31"
  shows "fst (CheckSplitBlock salt (bytesReaderAt (Bytes f)) (word_of_nat (BlockSize * length f)) x
           blockPool) = (Check salt f x, None)"
proof -
  let ?i = "unat (fasthash1x64 x (word_of_nat (length f)))"
  have less: "?i < length f" using assms by (rule index_in_range)
  from probe_reads_block [OF less probeOffset_bytes [OF assms]]
  show ?thesis by (simp add: Check_def filterCheck_def)
qed

lemma length_InsertBulk: "length (InsertBulk salt f xs) = length f"
  by (simp add: InsertBulk_def length_filterInsertBulk)

text \<open>
  C3. On a filter \<open>f\<close> with at least one block (and fewer than \<open>2^31\<close>),
  \<open>CheckSplitBlock\<close> over the bytes of \<open>f\<close>, with their full length, returns what
  \<open>Check\<close> returns on \<open>f\<close>, and no error, whatever the pool holds; for every hash
  inserted into \<open>f\<close> it returns true and no error.
\<close>

theorem disk_probe_matches_Check:
  assumes "f \<noteq> []" "length f < 2 ^ 31"
  shows "fst (CheckSplitBlock salt (bytesReaderAt (Bytes f))
           (word_of_nat (BlockSize * length f)) x blockPool) = (Check salt f x, None) \<and>
         (\<forall>h \<in> set xs.
            fst (CheckSplitBlock salt (bytesReaderAt (Bytes (InsertBulk salt f xs)))
              (word_of_nat (BlockSize * length (InsertBulk salt f xs))) h blockPool) =
            (True, None))"
proof (intro conjI ballI)
  show "fst (CheckSplitBlock salt (bytesReaderAt (Bytes f))
      (word_of_nat (BlockSize * length f)) x blockPool) = (Check salt f x, None)"
    using assms by (rule disk_probe_agrees)
next
  fix h assume h: "h \<in> set xs"
  let ?g = "InsertBulk salt f xs"
  have "length ?g = length f" by (rule length_InsertBulk)
  with assms have g: "?g \<noteq> []" "length ?g < 2 ^ 31" by auto
  have "Check salt ?g h"
    using filterInsertBulk_contains [OF assms h] by (simp add: Check_def InsertBulk_def)
  with disk_probe_agrees [OF g, of salt h blockPool]
  show "fst (CheckSplitBlock salt (bytesReaderAt (Bytes ?g))
      (word_of_nat (BlockSize * length ?g)) h blockPool) = (True, None)"
    by simp
qed

theorem disk_probe_matches_Check_witness:
  "[zeroBlock, zeroBlock, zeroBlock, zeroBlock] \<noteq> [] \<and>
   length [zeroBlock, zeroBlock, zeroBlock, zeroBlock] < 2 ^ 31 \<and>
   length (Bytes (InsertBulk parquetSalt [zeroBlock, zeroBlock, zeroBlock, zeroBlock]
     [0x8000000000000001, 2, 0x4000000000000003, 0xC000000000000005])) = 128 \<and>
   fst (CheckSplitBlock parquetSalt
     (bytesReaderAt (Bytes (InsertBulk parquetSalt [zeroBlock, zeroBlock, zeroBlock, zeroBlock]
        [0x8000000000000001, 2, 0x4000000000000003, 0xC000000000000005])))
     128 0x8000000000000001 []) = (True, None) \<and>
   fst (CheckSplitBlock parquetSalt
     (bytesReaderAt (Bytes (InsertBulk parquetSalt [zeroBlock, zeroBlock, zeroBlock, zeroBlock]
        [0x8000000000000001, 2, 0x4000000000000003, 0xC000000000000005])))
     128 2 []) = (True, None) \<and>
   fst (CheckSplitBlock parquetSalt
     (bytesReaderAt (Bytes (InsertBulk parquetSalt [zeroBlock, zeroBlock, zeroBlock, zeroBlock]
        [0x8000000000000001, 2, 0x4000000000000003, 0xC000000000000005])))
     128 0x4000000000000003 []) = (True, None) \<and>
   fst (CheckSplitBlock parquetSalt
     (bytesReaderAt (Bytes (InsertBulk parquetSalt [zeroBlock, zeroBlock, zeroBlock, zeroBlock]
        [0x8000000000000001, 2, 0x4000000000000003, 0xC000000000000005])))
     128 0xC000000000000005 []) = (True, None)"
proof -
  have ne: "[zeroBlock, zeroBlock, zeroBlock, zeroBlock] \<noteq> []"
    and lt: "length [zeroBlock, zeroBlock, zeroBlock, zeroBlock] < 2 ^ 31"
    by simp_all
  from disk_probe_matches_Check [OF ne lt, of parquetSalt 0 "[]"
      "[0x8000000000000001, 2, 0x4000000000000003, 0xC000000000000005]"]
  show ?thesis
    by (simp add: length_InsertBulk length_Bytes BlockSize_def)
qed

end
